theory Spec2Isabelle
  imports Main "HOL-Library.Word"
begin

unbundle bit_operations_syntax

section \<open>Data model\<close>

text \<open>
  The script \<^verbatim>\<open>b3_MCP_Tool_Simple/agent.py\<close> receives a list of events from the agent
  runner and reads four attributes of them: \<^verbatim>\<open>event.content\<close>,
  \<^verbatim>\<open>content.parts\<close>, \<^verbatim>\<open>part.text\<close> and \<^verbatim>\<open>part.function_response\<close>, each of
  which may be \<^verbatim>\<open>None\<close>. Every part has both of its attributes, so the test
  \<^verbatim>\<open>hasattr(part, "function_response")\<close> of line 89 always holds, and a content or a
  function response that is not \<^verbatim>\<open>None\<close> is truthy. The response of a tool call is a
  dict; its \<^verbatim>\<open>"content"\<close> entry, when present, is a list of items, and an item is again a
  dict from keys to values. The values the script looks at are strings or \<^verbatim>\<open>None\<close>.

  A Python \<^verbatim>\<open>str\<close> is modelled as a \<^typ>\<open>string\<close> whose characters are the code points
  below 256; \<^verbatim>\<open>bytes\<close> are lists of 8-bit words.
\<close>

type_synonym byte = "8 word"

datatype pyval = PNone | PStr string

text \<open>Python truthiness: \<^verbatim>\<open>None\<close> and the empty string are false.\<close>

fun truthy :: "pyval \<Rightarrow> bool" where
  "truthy PNone = False"
| "truthy (PStr s) = (s \<noteq> [])"

type_synonym item = "string \<rightharpoonup> pyval"

text \<open>\<^verbatim>\<open>d.get(k)\<close>: the value stored under \<open>k\<close>, or \<^verbatim>\<open>None\<close> when the key is absent.\<close>

definition get :: "item \<Rightarrow> string \<Rightarrow> pyval" where
  "get d k = (case d k of None \<Rightarrow> PNone | Some v \<Rightarrow> v)"

record FunctionResponse =
  response :: "string \<rightharpoonup> item list"

record Part =
  part_text :: "string option"
  function_response :: "FunctionResponse option"

record Content =
  parts :: "Part list option"

record Event =
  content :: "Content option"

section \<open>Exceptions\<close>

text \<open>
  The exceptions that can reach the caller of \<^verbatim>\<open>save_image_from_response\<close> and the
  top-level handler. \<^verbatim>\<open>binascii.Error\<close> has two messages in the decoder, kept as two
  constructors. \<^verbatim>\<open>ExceptionGroup\<close> is a subclass of both \<^verbatim>\<open>BaseExceptionGroup\<close> and
  \<^verbatim>\<open>Exception\<close>; a plain \<^verbatim>\<open>BaseExceptionGroup\<close>, \<^verbatim>\<open>KeyboardInterrupt\<close>,
  \<^verbatim>\<open>SystemExit\<close> and \<^verbatim>\<open>asyncio.CancelledError\<close> derive from \<^verbatim>\<open>BaseException\<close> only.
\<close>

datatype py_exception =
    ValueError_non_ascii
  | Binascii_Incorrect_padding
  | Binascii_Invalid_length nat
  | TypeError
  | OSError
  | OtherException string
  | ExceptionGroup string
  | BaseExceptionGroup string
  | KeyboardInterrupt
  | SystemExit
  | CancelledError

fun isinstance_BaseExceptionGroup :: "py_exception \<Rightarrow> bool" where
  "isinstance_BaseExceptionGroup (ExceptionGroup m) = True"
| "isinstance_BaseExceptionGroup (BaseExceptionGroup m) = True"
| "isinstance_BaseExceptionGroup e = False"

fun isinstance_Exception :: "py_exception \<Rightarrow> bool" where
  "isinstance_Exception (BaseExceptionGroup m) = False"
| "isinstance_Exception KeyboardInterrupt = False"
| "isinstance_Exception SystemExit = False"
| "isinstance_Exception CancelledError = False"
| "isinstance_Exception e = True"

section \<open>\<^verbatim>\<open>base64.b64decode\<close>\<close>

text \<open>
  The function is the standard library's, here as CPython 3.11 to 3.13 implement it.
  \<^verbatim>\<open>base64.b64decode(s)\<close> is called with its default \<^verbatim>\<open>validate=False\<close>. A \<^verbatim>\<open>str\<close>
  argument is first encoded as ASCII (a character outside ASCII raises \<^verbatim>\<open>ValueError\<close>),
  then \<^verbatim>\<open>binascii.a2b_base64\<close> runs in non-strict mode: characters outside the alphabet
  are discarded, every four alphabet characters give three bytes, a pad character
  \<^verbatim>\<open>=\<close> is ignored unless it completes a quad that has at least two characters, in which
  case decoding stops there, and an incomplete quad at the end of the input raises
  \<^verbatim>\<open>binascii.Error\<close>.
\<close>

definition b64_alphabet :: string where
  "b64_alphabet = ''ABCDEFGHIJKLMNOPQRSTUVWXYZabcdefghijklmnopqrstuvwxyz0123456789+/''"

fun index_of :: "'a \<Rightarrow> 'a list \<Rightarrow> nat option" where
  "index_of c [] = None"
| "index_of c (x # xs) = (if c = x then Some 0 else map_option Suc (index_of c xs))"

text \<open>The decoding table: the 6-bit value of an alphabet character, \<open>None\<close> for any other.\<close>

definition table_a2b_base64 :: "char \<Rightarrow> byte option" where
  "table_a2b_base64 c = map_option of_nat (index_of c b64_alphabet)"

text \<open>
  The decoding loop, with the C variables \<^verbatim>\<open>quad_pos\<close>, \<^verbatim>\<open>leftchar\<close> and \<^verbatim>\<open>pads\<close> as
  arguments and the bytes written so far in \<open>bin\<close>.
\<close>

fun a2b_base64_loop :: "string \<Rightarrow> nat \<Rightarrow> byte \<Rightarrow> nat \<Rightarrow> byte list \<Rightarrow> py_exception + byte list" where
  "a2b_base64_loop [] quad_pos leftchar pads bin =
     (if quad_pos \<noteq> 0 then
        (if quad_pos = 1 then Inl (Binascii_Invalid_length (length bin div 3 * 4 + 1))
         else Inl Binascii_Incorrect_padding)
      else Inr bin)"
| "a2b_base64_loop (this_ch # rest) quad_pos leftchar pads bin =
     (if this_ch = CHR ''='' then
        (if 2 \<le> quad_pos then
           (if 4 \<le> quad_pos + (pads + 1) then Inr bin
            else a2b_base64_loop rest quad_pos leftchar (pads + 1) bin)
         else a2b_base64_loop rest quad_pos leftchar pads bin)
      else
        (case table_a2b_base64 this_ch of
           None \<Rightarrow> a2b_base64_loop rest quad_pos leftchar pads bin
         | Some v \<Rightarrow>
             (if quad_pos = 0 then a2b_base64_loop rest 1 v 0 bin
              else if quad_pos = 1 then
                a2b_base64_loop rest 2 (v AND 0x0f) 0 (bin @ [push_bit 2 leftchar OR drop_bit 4 v])
              else if quad_pos = 2 then
                a2b_base64_loop rest 3 (v AND 0x03) 0 (bin @ [push_bit 4 leftchar OR drop_bit 2 v])
              else
                a2b_base64_loop rest 0 0 0 (bin @ [push_bit 6 leftchar OR v]))))"

definition is_ascii :: "char \<Rightarrow> bool" where
  "is_ascii c = ((of_char c :: nat) < 128)"

definition b64decode :: "string \<Rightarrow> py_exception + byte list" where
  "b64decode s =
     (if list_all is_ascii s then a2b_base64_loop s 0 0 0 [] else Inl ValueError_non_ascii)"

text \<open>The argument as the script passes it: any value; \<^verbatim>\<open>None\<close> is a \<^verbatim>\<open>TypeError\<close>.\<close>

fun b64decode_val :: "pyval \<Rightarrow> py_exception + byte list" where
  "b64decode_val PNone = Inl TypeError"
| "b64decode_val (PStr s) = b64decode s"

section \<open>The file system\<close>

text \<open>
  \<^verbatim>\<open>Path.write_bytes\<close> opens the file for writing, which creates or truncates it, and
  writes the bytes. Whether the open succeeds (permissions, a missing directory) is a
  property of the file system; a failed open raises \<^verbatim>\<open>OSError\<close> and changes nothing.
  A failure of the write after a successful open is not modelled.
  \<^verbatim>\<open>Path.resolve\<close> is the file system's too.
\<close>

record fs =
  files :: "string \<rightharpoonup> byte list"
  writable :: "string \<Rightarrow> bool"
  resolve :: "string \<Rightarrow> string"

definition write_bytes :: "fs \<Rightarrow> string \<Rightarrow> byte list \<Rightarrow> py_exception + fs" where
  "write_bytes s path data =
     (if writable s path then Inr (s\<lparr>files := (files s)(path \<mapsto> data)\<rparr>) else Inl OSError)"

section \<open>\<^verbatim>\<open>save_image_from_response\<close>\<close>

text \<open>The test of line 92: \<^verbatim>\<open>item.get("type") == "image" and item.get("data")\<close>.\<close>

definition is_image_item :: "item \<Rightarrow> bool" where
  "is_image_item it = (get it ''type'' = PStr ''image'' \<and> truthy (get it ''data''))"

text \<open>
  The three nested loops of lines 85 to 96, each threading the variable
  \<^verbatim>\<open>image_data_b64\<close>. The loop over items stops at the first image item (line 94). The
  loop over parts has no \<^verbatim>\<open>break\<close>: it visits every part of the event. The loop over
  events stops after an event that left \<^verbatim>\<open>image_data_b64\<close> truthy (lines 95 and 96).
\<close>

fun scan_items :: "item list \<Rightarrow> pyval \<Rightarrow> pyval" where
  "scan_items [] image_data_b64 = image_data_b64"
| "scan_items (it # rest) image_data_b64 =
     (if is_image_item it then get it ''data'' else scan_items rest image_data_b64)"

text \<open>\<^verbatim>\<open>part.function_response.response.get("content", [])\<close>\<close>

definition response_content :: "FunctionResponse \<Rightarrow> item list" where
  "response_content fr = (case response fr ''content'' of None \<Rightarrow> [] | Some its \<Rightarrow> its)"

fun scan_parts :: "Part list \<Rightarrow> pyval \<Rightarrow> pyval" where
  "scan_parts [] image_data_b64 = image_data_b64"
| "scan_parts (p # rest) image_data_b64 =
     (case function_response p of
        None \<Rightarrow> scan_parts rest image_data_b64
      | Some fr \<Rightarrow> scan_parts rest (scan_items (response_content fr) image_data_b64))"

fun scan_events :: "Event list \<Rightarrow> pyval \<Rightarrow> pyval" where
  "scan_events [] image_data_b64 = image_data_b64"
| "scan_events (e # rest) image_data_b64 =
     (case content e of
        None \<Rightarrow> scan_events rest image_data_b64
      | Some c \<Rightarrow>
          (case parts c of
             None \<Rightarrow> scan_events rest image_data_b64
           | Some ps \<Rightarrow>
               (if ps = [] then scan_events rest image_data_b64
                else
                  (let found = scan_parts ps image_data_b64
                   in if truthy found then found else scan_events rest found))))"

definition not_found_status :: string where
  "not_found_status = ''No image data found in the agent's tool response.''"

definition saved_status :: "string \<Rightarrow> string" where
  "saved_status resolved = ''Image successfully saved to: '' @ resolved"

text \<open>
  The function returns its status string or raises; the file system after the call is
  the second component in both cases.
\<close>

definition save_image_from_response ::
  "Event list \<Rightarrow> string \<Rightarrow> fs \<Rightarrow> (py_exception + string) \<times> fs" where
  "save_image_from_response events output_filename s =
     (let image_data_b64 = scan_events events PNone
      in if truthy image_data_b64 then
           (case b64decode_val image_data_b64 of
              Inl err \<Rightarrow> (Inl err, s)
            | Inr image_bytes \<Rightarrow>
                (case write_bytes s output_filename image_bytes of
                   Inl err \<Rightarrow> (Inl err, s)
                 | Inr s' \<Rightarrow> (Inr (saved_status (resolve s' output_filename)), s')))
         else (Inr not_found_status, s))"

definition default_output_filename :: string where
  "default_output_filename = ''tiny_image.png''"

section \<open>\<^verbatim>\<open>main\<close>: the text of the response\<close>

text \<open>
  Lines 128 to 133: two nested loops that append every truthy \<^verbatim>\<open>part.text\<close> to
  \<^verbatim>\<open>final_response_text\<close>.
\<close>

fun text_of_parts :: "Part list \<Rightarrow> string \<Rightarrow> string" where
  "text_of_parts [] final_response_text = final_response_text"
| "text_of_parts (p # rest) final_response_text =
     (case part_text p of
        None \<Rightarrow> text_of_parts rest final_response_text
      | Some t \<Rightarrow>
          (if t \<noteq> [] then text_of_parts rest (final_response_text @ t)
           else text_of_parts rest final_response_text))"

fun text_of_events :: "Event list \<Rightarrow> string \<Rightarrow> string" where
  "text_of_events [] final_response_text = final_response_text"
| "text_of_events (e # rest) final_response_text =
     (case content e of
        None \<Rightarrow> text_of_events rest final_response_text
      | Some c \<Rightarrow>
          (case parts c of
             None \<Rightarrow> text_of_events rest final_response_text
           | Some ps \<Rightarrow>
               (if ps = [] then text_of_events rest final_response_text
                else text_of_events rest (text_of_parts ps final_response_text))))"

definition final_response_text :: "Event list \<Rightarrow> string" where
  "final_response_text events = text_of_events events []"

text \<open>
  \<^verbatim>\<open>str.strip()\<close> removes leading and trailing whitespace; below 256 the whitespace
  characters of a \<^verbatim>\<open>str\<close> are 9 to 13, 28 to 32, 133 and 160.
\<close>

definition py_isspace :: "char \<Rightarrow> bool" where
  "py_isspace c =
     (let n = (of_char c :: nat)
      in (9 \<le> n \<and> n \<le> 13) \<or> (28 \<le> n \<and> n \<le> 32) \<or> n = 133 \<or> n = 160)"

definition strip :: "string \<Rightarrow> string" where
  "strip s = rev (dropWhile py_isspace (rev (dropWhile py_isspace s)))"

text \<open>
  \<^verbatim>\<open>main\<close> from line 125 on, given the events that \<^verbatim>\<open>runner.run_debug\<close> returned: the
  image is saved first, then the text is collected, then four lines are printed. An
  exception of \<^verbatim>\<open>save_image_from_response\<close> is not caught here.
\<close>

definition main :: "Event list \<Rightarrow> fs \<Rightarrow> (py_exception + string list) \<times> fs" where
  "main response_events s =
     (case save_image_from_response response_events default_output_filename s of
        (Inl err, s') \<Rightarrow> (Inl err, s')
      | (Inr image_status, s') \<Rightarrow>
          (Inr [replicate 60 CHR ''='',
                ''Agent Final Text Response: '' @ strip (final_response_text response_events),
                ''Image Saving Status: '' @ image_status,
                replicate 60 CHR ''=''], s'))"

section \<open>The top-level handler\<close>

text \<open>
  Lines 141 to 152, with the name \<^verbatim>\<open>BaseExceptionGroup\<close> bound (a builtin from Python
  3.11 on, else imported in lines 39 to 44). The argument is how
  \<^verbatim>\<open>asyncio.run(main())\<close> ended: \<open>None\<close> when it returned, the exception when it
  raised. The first handler prints that the script completed and that a cleanup error
  can be ignored; the second prints the exception as an unexpected fatal error; an
  exception that neither handler matches leaves the script.
\<close>

datatype script_end = Completed | Suppressed | Reported py_exception | Uncaught py_exception

definition dunder_main :: "py_exception option \<Rightarrow> script_end" where
  "dunder_main raised =
     (case raised of
        None \<Rightarrow> Completed
      | Some e \<Rightarrow>
          (if isinstance_BaseExceptionGroup e then Suppressed
           else if isinstance_Exception e then Reported e
           else Uncaught e))"

section \<open>What the specification speaks of\<close>

text \<open>
  The parts an event offers to a scan, the items a part offers, and all items of a list
  of events in event order, then part order, then item order.
\<close>

definition event_parts :: "Event \<Rightarrow> Part list" where
  "event_parts e =
     (case content e of
        None \<Rightarrow> []
      | Some c \<Rightarrow> (case parts c of None \<Rightarrow> [] | Some ps \<Rightarrow> ps))"

definition part_items :: "Part \<Rightarrow> item list" where
  "part_items p = (case function_response p of None \<Rightarrow> [] | Some fr \<Rightarrow> response_content fr)"

definition all_parts :: "Event list \<Rightarrow> Part list" where
  "all_parts events = concat (map event_parts events)"

definition all_items :: "Event list \<Rightarrow> item list" where
  "all_items events = concat (map part_items (all_parts events))"

text \<open>
  The specification's extraction: the data of the first image item in event order, then
  part order, then item order; \<^verbatim>\<open>None\<close> when there is no image item.
\<close>

definition first_image :: "Event list \<Rightarrow> pyval" where
  "first_image events =
     (case filter is_image_item (all_items events) of
        [] \<Rightarrow> PNone
      | it # _ \<Rightarrow> get it ''data'')"

text \<open>The specification's text fragments: the non-empty text fields, in order.\<close>

definition text_fragments :: "Event list \<Rightarrow> string list" where
  "text_fragments events =
     filter (\<lambda>t. t \<noteq> [])
       (concat (map (\<lambda>p. case part_text p of None \<Rightarrow> [] | Some t \<Rightarrow> [t]) (all_parts events)))"




text \<open>
  Standard base64 (RFC 4648, section 4): three bytes give four alphabet characters, a
  final group of one or two bytes is padded with \<^verbatim>\<open>=\<close> to four characters. The
  encoding table reads the low six bits of its argument.
\<close>

definition table_b2a_base64 :: "byte \<Rightarrow> char" where
  "table_b2a_base64 v = b64_alphabet ! unat (v AND 0x3f)"

fun b64encode :: "byte list \<Rightarrow> string" where
  "b64encode [] = []"
| "b64encode [a] =
     [table_b2a_base64 (drop_bit 2 a),
      table_b2a_base64 (push_bit 4 (a AND 0x03)),
      CHR ''='', CHR ''='']"
| "b64encode [a, b] =
     [table_b2a_base64 (drop_bit 2 a),
      table_b2a_base64 (push_bit 4 (a AND 0x03) OR drop_bit 4 b),
      table_b2a_base64 (push_bit 2 (b AND 0x0f)),
      CHR ''='']"
| "b64encode (a # b # c # rest) =
     [table_b2a_base64 (drop_bit 2 a),
      table_b2a_base64 (push_bit 4 (a AND 0x03) OR drop_bit 4 b),
      table_b2a_base64 (push_bit 2 (b AND 0x0f) OR drop_bit 6 c),
      table_b2a_base64 c] @ b64encode rest"

text \<open>
  Standard base64 text: groups of four alphabet characters, the last group possibly
  ending in one or two pad characters.
\<close>

definition in_alphabet :: "char \<Rightarrow> bool" where
  "in_alphabet c = (table_a2b_base64 c \<noteq> None)"

fun standard_base64 :: "string \<Rightarrow> bool" where
  "standard_base64 [] = True"
| "standard_base64 [a, b, c, d] =
     (in_alphabet a \<and> in_alphabet b \<and>
      ((in_alphabet c \<and> (in_alphabet d \<or> d = CHR ''='')) \<or> (c = CHR ''='' \<and> d = CHR ''='')))"
| "standard_base64 (a # b # c # d # rest) =
     (in_alphabet a \<and> in_alphabet b \<and> in_alphabet c \<and> in_alphabet d \<and> standard_base64 rest)"
| "standard_base64 _ = False"

text \<open>
  Builders for concrete events: a part that is a tool response with the given items, a
  part that is text, an event with the given parts, an image item with the given data,
  and a file system without files where every path can be written.
\<close>

definition tool_response_part :: "item list \<Rightarrow> Part" where
  "tool_response_part its =
     \<lparr>part_text = None, function_response = Some \<lparr>response = [''content'' \<mapsto> its]\<rparr>\<rparr>"

definition text_part :: "string \<Rightarrow> Part" where
  "text_part t = \<lparr>part_text = Some t, function_response = None\<rparr>"

definition event_of_parts :: "Part list \<Rightarrow> Event" where
  "event_of_parts ps = \<lparr>content = Some \<lparr>parts = Some ps\<rparr>\<rparr>"

definition image_item :: "string \<Rightarrow> item" where
  "image_item d = [''type'' \<mapsto> PStr ''image'', ''data'' \<mapsto> PStr d]"

definition empty_fs :: fs where
  "empty_fs = \<lparr>files = Map.empty, writable = (\<lambda>p. True), resolve = (\<lambda>p. ''/work/'' @ p)\<rparr>"

text \<open>
  The parts of an event that carry at least one image item: the parts at which the scan
  assigns \<^verbatim>\<open>image_data_b64\<close>.
\<close>

definition has_image :: "Part \<Rightarrow> bool" where
  "has_image p = list_ex is_image_item (part_items p)"

definition image_parts :: "Event \<Rightarrow> Part list" where
  "image_parts e = filter has_image (event_parts e)"

text \<open>What a part adds to the text: its text field, nothing when the field is \<^verbatim>\<open>None\<close>.\<close>

definition fragment :: "Part \<Rightarrow> string" where
  "fragment p = (case part_text p of None \<Rightarrow> [] | Some t \<Rightarrow> t)"

text \<open>
  An event that offers no items: no content, no parts, or parts whose tool responses
  have no \<^verbatim>\<open>"content"\<close> key.
\<close>

definition no_tool_content :: "Event \<Rightarrow> bool" where
  "no_tool_content e =
     (case content e of
        None \<Rightarrow> True
      | Some c \<Rightarrow>
          (case parts c of
             None \<Rightarrow> True
           | Some ps \<Rightarrow>
               list_all (\<lambda>p. case function_response p of
                               None \<Rightarrow> True
                             | Some fr \<Rightarrow> response fr ''content'' = None) ps))"

section \<open>Concrete inputs\<close>

text \<open>
  The three events of the specification's end-to-end scenario; the image data is the
  standard encoding of the bytes of \<^verbatim>\<open>b"ABC"\<close>.
\<close>

definition scenario :: "Event list" where
  "scenario =
     [\<lparr>content = None\<rparr>,
      event_of_parts [text_part ''Here is '', tool_response_part [[''type'' \<mapsto> PStr ''text'']]],
      event_of_parts [text_part ''your image.'',
                      tool_response_part [image_item (b64encode [0x41, 0x42, 0x43])]]]"

text \<open>
  One event with two tool responses, each with one image: \<^verbatim>\<open>QUFB\<close> encodes
  \<^verbatim>\<open>b"AAA"\<close> and \<^verbatim>\<open>QkJC\<close> encodes \<^verbatim>\<open>b"BBB"\<close>.
\<close>

definition two_responses :: "Event list" where
  "two_responses =
     [event_of_parts [tool_response_part [image_item ''QUFB''],
                      tool_response_part [image_item ''QkJC'']]]"


text \<open>A tool response whose dict is empty.\<close>

definition bare_response_part :: Part where
  "bare_response_part = \<lparr>part_text = None, function_response = Some \<lparr>response = Map.empty\<rparr>\<rparr>"

definition no_items_events :: "Event list" where
  "no_items_events =
     [\<lparr>content = None\<rparr>, \<lparr>content = Some \<lparr>parts = None\<rparr>\<rparr>, event_of_parts [],
      event_of_parts [bare_response_part]]"

lemmas build_defs = event_of_parts_def tool_response_part_def text_part_def image_item_def
lemmas scan_defs = response_content_def is_image_item_def get_def
lemmas b64_defs = b64decode_def is_ascii_def table_a2b_base64_def b64_alphabet_def
lemmas flat_defs = all_items_def all_parts_def event_parts_def part_items_def

section \<open>Properties of the scan\<close>

lemma is_image_item_truthy: "is_image_item it \<Longrightarrow> truthy (get it ''data'')"
  by (simp add: is_image_item_def)

lemma scan_items_filter:
  "scan_items its acc = (case filter is_image_item its of [] \<Rightarrow> acc | it # _ \<Rightarrow> get it ''data'')"
  by (induction its) auto


lemma scan_items_none: "\<forall>it\<in>set its. \<not> is_image_item it \<Longrightarrow> scan_items its acc = acc"
  by (induction its) auto

lemma scan_items_sound:
  "scan_items its acc = acc \<or> (\<exists>it\<in>set its. is_image_item it \<and> scan_items its acc = get it ''data'')"
  by (induction its) auto

lemma scan_parts_none:
  "\<forall>p\<in>set ps. \<forall>it\<in>set (part_items p). \<not> is_image_item it \<Longrightarrow> scan_parts ps acc = acc"
proof (induction ps arbitrary: acc)
  case Nil
  show ?case by simp
next
  case (Cons p ps)
  then show ?case
    by (cases "function_response p") (simp_all add: part_items_def scan_items_none)
qed

lemma scan_parts_sound:
  "scan_parts ps acc = acc \<or>
   (\<exists>p\<in>set ps. \<exists>it\<in>set (part_items p). is_image_item it \<and> scan_parts ps acc = get it ''data'')"
proof (induction ps arbitrary: acc)
  case Nil
  show ?case by simp
next
  case (Cons p ps)
  show ?case
  proof (cases "function_response p")
    case None
    with Cons [of acc] show ?thesis by auto
  next
    case (Some fr)
    let ?mid = "scan_items (response_content fr) acc"
    from Cons [of ?mid] consider "scan_parts ps ?mid = ?mid"
      | "\<exists>q\<in>set ps. \<exists>it\<in>set (part_items q). is_image_item it \<and> scan_parts ps ?mid = get it ''data''"
      by blast
    then show ?thesis
    proof cases
      case 1
      with scan_items_sound [of "response_content fr" acc] Some show ?thesis
        by (auto simp: part_items_def)
    next
      case 2
      with Some show ?thesis by auto
    qed
  qed
qed

lemma scan_events_none:
  "\<forall>it\<in>set (all_items events). \<not> is_image_item it \<Longrightarrow> scan_events events acc = acc"
proof (induction events)
  case Nil
  show ?case by simp
next
  case (Cons e es)
  then have rest: "scan_events es acc = acc"
    by (simp add: all_items_def all_parts_def)
  from Cons.prems have here: "\<forall>p\<in>set (event_parts e). \<forall>it\<in>set (part_items p). \<not> is_image_item it"
    by (auto simp: all_items_def all_parts_def)
  show ?case
  proof (cases "content e")
    case None
    with rest show ?thesis by simp
  next
    case (Some c)
    show ?thesis
    proof (cases "parts c")
      case None
      with Some rest show ?thesis by simp
    next
      case (Some ps)
      with \<open>content e = Some c\<close> here have "scan_parts ps acc = acc"
        by (simp add: event_parts_def scan_parts_none)
      with Some \<open>content e = Some c\<close> rest show ?thesis by (simp add: Let_def)
    qed
  qed
qed

lemma scan_events_sound:
  "scan_events events acc = acc \<or>
   (\<exists>it\<in>set (all_items events). is_image_item it \<and> scan_events events acc = get it ''data'')"
proof (induction events)
  case Nil
  show ?case by simp
next
  case (Cons e es)
  have items: "set (all_items (e # es)) = (\<Union>p\<in>set (event_parts e). set (part_items p)) \<union> set (all_items es)"
    by (simp add: all_items_def all_parts_def)
  show ?case
  proof (cases "content e")
    case None
    with Cons items show ?thesis by auto
  next
    case (Some c)
    show ?thesis
    proof (cases "parts c")
      case None
      with Some Cons items show ?thesis by auto
    next
      case ps: (Some ps)
      have ep: "event_parts e = ps" using Some ps by (simp add: event_parts_def)
      show ?thesis
      proof (cases "scan_parts ps acc = acc")
        case True
        with Some ps Cons items show ?thesis by (auto simp: Let_def)
      next
        case False
        with scan_parts_sound [of ps acc] obtain p it where
          "p \<in> set ps" "it \<in> set (part_items p)" "is_image_item it" "scan_parts ps acc = get it ''data''"
          by blast
        moreover from this have "truthy (scan_parts ps acc)" by (simp add: is_image_item_truthy)
        ultimately show ?thesis using Some ps items ep False by (auto simp: Let_def)
      qed
    qed
  qed
qed






section \<open>Decoding what the standard encoding produced\<close>

lemma length_b64_alphabet: "length b64_alphabet = 64"
  by (simp add: b64_alphabet_def)

lemma distinct_b64_alphabet: "distinct b64_alphabet"
  by (simp add: b64_alphabet_def)



lemma index_of_nth: "distinct xs \<Longrightarrow> n < length xs \<Longrightarrow> index_of (xs ! n) xs = Some n"
proof (induction xs arbitrary: n)
  case Nil
  then show ?case by simp
next
  case (Cons x xs)
  then show ?case by (cases n) auto
qed

lemma sextet_bound: "unat ((v::byte) AND 0x3f) < 64"
  using word_and_le1 [of v "0x3f"] by (simp add: word_le_nat_alt)




lemma a2b_b2a: "table_a2b_base64 (table_b2a_base64 v) = Some (v AND 0x3f)"
  by (simp add: table_a2b_base64_def table_b2a_base64_def index_of_nth
      distinct_b64_alphabet length_b64_alphabet sextet_bound)






















lemma standard_b64encode: "standard_base64 (b64encode x)"
proof (induction x rule: b64encode.induct)
  case (4 a b c rest)
  then show ?case
    by (cases "b64encode rest") (simp_all add: in_alphabet_def a2b_b2a)
qed (simp_all add: in_alphabet_def a2b_b2a)










section \<open>What the scan selects\<close>

lemma scan_events_result:
  "scan_events events PNone = PStr d \<Longrightarrow> truthy (PStr d)"
proof -
  assume sel: "scan_events events PNone = PStr d"
  with scan_events_sound [of events PNone] obtain it where
    "is_image_item it" "scan_events events PNone = get it ''data''"
    by auto
  with is_image_item_truthy [of it] sel show ?thesis by simp
qed

lemma scan_parts_items:
  "scan_parts (p # ps) acc = scan_parts ps (scan_items (part_items p) acc)"
  by (cases "function_response p") (simp_all add: part_items_def)

lemma scan_items_found:
  "list_ex is_image_item its \<Longrightarrow> scan_items its a = scan_items its b"
  by (induction its) auto

lemma scan_items_found_truthy:
  "list_ex is_image_item its \<Longrightarrow> truthy (scan_items its a)"
  by (induction its) (auto simp: is_image_item_truthy)

lemma scan_parts_last:
  "scan_parts ps acc =
     (if filter has_image ps = [] then acc
      else scan_items (part_items (last (filter has_image ps))) acc)"
proof (induction ps arbitrary: acc)
  case Nil
  show ?case by simp
next
  case (Cons p ps)
  show ?case
  proof (cases "filter has_image ps = []")
    case True
    have step: "scan_parts (p # ps) acc = scan_items (part_items p) acc"
      by (simp add: scan_parts_items Cons True del: scan_parts.simps)
    show ?thesis
    proof (cases "has_image p")
      case yes: True
      with True step show ?thesis by simp
    next
      case no: False
      then have "scan_items (part_items p) acc = acc"
        by (simp add: has_image_def list_ex_iff scan_items_none)
      with True no step show ?thesis by simp
    qed
  next
    case False
    then have "has_image (last (filter has_image ps))"
      using last_in_set [of "filter has_image ps"] by auto
    then have "scan_items (part_items (last (filter has_image ps))) (scan_items (part_items p) acc)
        = scan_items (part_items (last (filter has_image ps))) acc"
      unfolding has_image_def by (rule scan_items_found)
    moreover have "scan_parts (p # ps) acc
        = scan_items (part_items (last (filter has_image ps))) (scan_items (part_items p) acc)"
      by (simp add: scan_parts_items Cons False del: scan_parts.simps)
    ultimately show ?thesis using False by simp
  qed
qed

lemma scan_events_last_part:
  "scan_events events PNone =
     (case dropWhile (\<lambda>e. image_parts e = []) events of
        [] \<Rightarrow> PNone
      | e # _ \<Rightarrow> scan_items (part_items (last (image_parts e))) PNone)"
proof (induction events)
  case Nil
  show ?case by simp
next
  case (Cons e es)
  show ?case
  proof (cases "content e")
    case None
    with Cons show ?thesis by (simp add: image_parts_def event_parts_def)
  next
    case (Some c)
    show ?thesis
    proof (cases "parts c")
      case None
      with Some Cons show ?thesis by (simp add: image_parts_def event_parts_def)
    next
      case ps: (Some ps)
      have ep: "event_parts e = ps" using Some ps by (simp add: event_parts_def)
      show ?thesis
      proof (cases "image_parts e = []")
        case True
        with Some ps ep Cons show ?thesis
          by (simp add: image_parts_def scan_parts_last Let_def)
      next
        case False
        then have "has_image (last (image_parts e))"
          using last_in_set [of "image_parts e"] by (auto simp: image_parts_def)
        then have "truthy (scan_items (part_items (last (image_parts e))) PNone)"
          unfolding has_image_def by (rule scan_items_found_truthy)
        moreover from False have "ps \<noteq> []" using ep by (auto simp: image_parts_def)
        ultimately show ?thesis
          using False Some ps ep by (simp add: image_parts_def scan_parts_last Let_def)
      qed
    qed
  qed
qed

lemma filter_concat_single:
  assumes "filter has_image ps = [q]"
  shows "filter is_image_item (concat (map part_items ps)) = filter is_image_item (part_items q)"
  using assms
proof (induction ps)
  case Nil
  then show ?case by simp
next
  case (Cons p ps)
  show ?case
  proof (cases "has_image p")
    case True
    with Cons.prems have "p = q" "filter has_image ps = []" by simp_all
    then have "\<forall>r\<in>set ps. filter is_image_item (part_items r) = []"
      by (auto simp: filter_empty_conv has_image_def list_ex_iff)
    then have "filter is_image_item (concat (map part_items ps)) = []"
      by (induction ps) simp_all
    with \<open>p = q\<close> show ?thesis by simp
  next
    case False
    then have "filter is_image_item (part_items p) = []"
      by (auto simp: filter_empty_conv has_image_def list_ex_iff)
    with False Cons show ?thesis by simp
  qed
qed

lemma filter_concat_none:
  "filter has_image ps = [] \<Longrightarrow> filter is_image_item (concat (map part_items ps)) = []"
  by (induction ps) (auto simp: filter_empty_conv has_image_def list_ex_iff split: if_splits)

lemma first_image_Cons:
  "first_image (e # es) =
     (case filter is_image_item (concat (map part_items (event_parts e))) of
        [] \<Rightarrow> first_image es
      | it # _ \<Rightarrow> get it ''data'')"
  by (simp add: first_image_def all_items_def all_parts_def split: list.splits)

lemma scan_events_first_image:
  assumes "\<forall>e\<in>set events. length (image_parts e) \<le> 1"
  shows "scan_events events PNone = first_image events"
  using assms
proof (induction events)
  case Nil
  show ?case by (simp add: first_image_def all_items_def all_parts_def)
next
  case (Cons e es)
  then have rest: "scan_events es PNone = first_image es" by simp
  show ?case
  proof (cases "image_parts e")
    case Nil
    then have "filter is_image_item (concat (map part_items (event_parts e))) = []"
      by (simp add: image_parts_def filter_concat_none)
    with Nil rest scan_events_last_part [of "e # es"] scan_events_last_part [of es]
    show ?thesis
      by (simp add: first_image_Cons del: scan_events.simps)
  next
    case (Cons q qs)
    with Cons.prems have one: "image_parts e = [q]" by simp
    then have "filter is_image_item (concat (map part_items (event_parts e)))
        = filter is_image_item (part_items q)"
      by (simp add: image_parts_def filter_concat_single)
    moreover from one have "q \<in> set (image_parts e)" by simp
    then have "filter is_image_item (part_items q) \<noteq> []"
      by (auto simp: image_parts_def has_image_def list_ex_iff filter_empty_conv)
    ultimately show ?thesis
      using one scan_events_last_part [of "e # es"]
      by (simp add: first_image_Cons scan_items_filter del: scan_events.simps split: list.splits)
  qed
qed

section \<open>Properties of the text\<close>

lemma text_of_parts_concat: "text_of_parts ps acc = acc @ concat (map fragment ps)"
  by (induction ps arbitrary: acc) (auto simp: fragment_def split: option.splits)

lemma text_of_events_concat:
  "text_of_events events acc = acc @ concat (map fragment (all_parts events))"
proof (induction events arbitrary: acc)
  case Nil
  show ?case by (simp add: all_parts_def)
next
  case (Cons e es)
  have split: "all_parts (e # es) = event_parts e @ all_parts es"
    by (simp add: all_parts_def)
  show ?case
  proof (cases "content e")
    case None
    then show ?thesis by (simp add: Cons split event_parts_def)
  next
    case (Some c)
    then show ?thesis
      by (cases "parts c") (simp_all add: Cons split event_parts_def text_of_parts_concat)
  qed
qed

lemma concat_nonempty: "concat (filter (\<lambda>t. t \<noteq> []) xs) = concat xs"
  by (induction xs) auto

lemma concat_text_fragments:
  "concat (text_fragments events) = concat (map fragment (all_parts events))"
proof -
  have "concat (concat (map (\<lambda>p. case part_text p of None \<Rightarrow> [] | Some t \<Rightarrow> [t]) ps))
        = concat (map fragment ps)" for ps
    by (induction ps) (auto simp: fragment_def split: option.splits)
  then show ?thesis by (simp add: text_fragments_def concat_nonempty)
qed

section \<open>Events without items\<close>

lemma no_tool_content_items: "no_tool_content e \<Longrightarrow> concat (map part_items (event_parts e)) = []"
  by (auto simp: no_tool_content_def event_parts_def part_items_def response_content_def
      list_all_iff split: option.splits)

lemma no_tool_content_all_items: "list_all no_tool_content events \<Longrightarrow> all_items events = []"
  by (induction events) (simp_all add: all_items_def all_parts_def no_tool_content_items)

section \<open>The claims\<close>

text \<open>
  C1 claims that the image extracted is always the first image item in event order, then
  part order, then item order, and that finding it ends all three loops at once. The
  loop over parts does not end: on \<open>two_responses\<close> the first image item in that order
  carries \<^verbatim>\<open>QUFB\<close>, while the scan goes on to the second part, returns \<^verbatim>\<open>QkJC\<close>,
  and the file saved holds \<^verbatim>\<open>b"BBB"\<close>.
\<close>

theorem later_part_replaces_first_image:
  "first_image two_responses = PStr ''QUFB''
   \<and> scan_events two_responses PNone = PStr ''QkJC''
   \<and> files (snd (save_image_from_response two_responses default_output_filename empty_fs))
         default_output_filename = Some [0x42, 0x42, 0x42]"
  by (simp add: save_image_from_response_def first_image_def two_responses_def flat_defs
      build_defs scan_defs b64_defs write_bytes_def empty_fs_def default_output_filename_def)









text \<open>
  C5: on the three events of the scenario the text, after trimming, is
  \<^verbatim>\<open>Here is your image.\<close>, and \<^verbatim>\<open>main\<close> leaves the bytes of \<^verbatim>\<open>b"ABC"\<close> in the file
  \<^verbatim>\<open>tiny_image.png\<close>, provided the file can be opened for writing.
\<close>

theorem scenario_text_and_file:
  assumes "writable s default_output_filename"
  shows "strip (final_response_text scenario) = ''Here is your image.''
       \<and> main scenario s =
           (Inr [replicate 60 CHR ''='',
                 ''Agent Final Text Response: Here is your image.'',
                 ''Image Saving Status: '' @ saved_status (resolve s default_output_filename),
                 replicate 60 CHR ''=''],
            s\<lparr>files := (files s)(default_output_filename \<mapsto> [0x41, 0x42, 0x43])\<rparr>)"
proof -
  have collected: "final_response_text scenario = ''Here is your image.''"
    by (simp add: final_response_text_def scenario_def build_defs)
  have stripped: "strip ''Here is your image.'' = ''Here is your image.''"
    by (simp add: strip_def py_isspace_def)
  have sel: "scan_events scenario PNone = PStr ''QUJD''"
    by (simp add: scenario_def table_b2a_base64_def b64_alphabet_def build_defs scan_defs)
  have dec: "b64decode ''QUJD'' = Inr [0x41, 0x42, 0x43]"
    by (simp add: b64_defs)
  have img: "save_image_from_response scenario default_output_filename s =
      (Inr (saved_status (resolve s default_output_filename)),
       s\<lparr>files := (files s)(default_output_filename \<mapsto> [0x41, 0x42, 0x43])\<rparr>)"
    using assms by (simp add: save_image_from_response_def sel dec write_bytes_def)
  show ?thesis by (simp add: main_def img collected stripped)
qed

text \<open>C5 on a file system where every path can be written.\<close>

theorem scenario_text_and_file_witness:
  "writable empty_fs default_output_filename
   \<and> strip (final_response_text scenario) = ''Here is your image.''
   \<and> files (snd (main scenario empty_fs)) ''tiny_image.png'' = Some [0x41, 0x42, 0x43]"
proof -
  have w: "writable empty_fs default_output_filename" by (simp add: empty_fs_def)
  from scenario_text_and_file [OF w] w show ?thesis
    by (simp add: default_output_filename_def)
qed

text \<open>
  C6: the collected text is the concatenation, in event order then part order, of exactly
  the non-empty text fields, with nothing between them; and an event none of whose parts
  has a text field (only tool responses) can be taken out of the list without changing
  the text.
\<close>

theorem text_is_concatenation:
  "final_response_text events = concat (text_fragments events)
   \<and> ((\<forall>p\<in>set (event_parts e). part_text p = None) \<longrightarrow>
        final_response_text (before @ e # after) = final_response_text (before @ after))"
proof
  show "final_response_text events = concat (text_fragments events)"
    by (simp add: final_response_text_def text_of_events_concat concat_text_fragments)
next
  show "(\<forall>p\<in>set (event_parts e). part_text p = None) \<longrightarrow>
        final_response_text (before @ e # after) = final_response_text (before @ after)"
  proof
    assume "\<forall>p\<in>set (event_parts e). part_text p = None"
    then have "concat (map fragment (event_parts e)) = []"
      by (simp add: fragment_def)
    then show "final_response_text (before @ e # after) = final_response_text (before @ after)"
      by (simp add: final_response_text_def text_of_events_concat all_parts_def)
  qed
qed

text \<open>C6 at three text parts, one of them empty, and at an event with an image only.\<close>

theorem text_is_concatenation_witness:
  "final_response_text [event_of_parts [text_part ''a '', text_part [], text_part ''b'']] = ''a b''
   \<and> map part_text (event_parts (event_of_parts [tool_response_part [image_item ''QUJD'']])) = [None]
   \<and> final_response_text ([event_of_parts [text_part ''a '']] @
         event_of_parts [tool_response_part [image_item ''QUJD'']] # [event_of_parts [text_part ''b'']])
       = final_response_text ([event_of_parts [text_part ''a '']] @ [event_of_parts [text_part ''b'']])"
  using text_is_concatenation [of "[event_of_parts [text_part ''a '', text_part [], text_part ''b'']]"
      "event_of_parts [tool_response_part [image_item ''QUJD'']]"
      "[event_of_parts [text_part ''a '']]" "[event_of_parts [text_part ''b'']]"]
  by (simp add: text_fragments_def flat_defs build_defs)



text \<open>
  C8, as stated, fails: \<^verbatim>\<open>asyncio.CancelledError\<close> is not a \<^verbatim>\<open>BaseExceptionGroup\<close>, and
  neither handler catches it; it leaves the script.
\<close>

theorem cancellation_not_caught:
  "\<not> isinstance_BaseExceptionGroup CancelledError
   \<and> dunder_main (Some CancelledError) = Uncaught CancelledError"
  by (simp add: dunder_main_def)

text \<open>
  C8, amended: a \<^verbatim>\<open>BaseExceptionGroup\<close> raised from the run is suppressed; every other
  exception that is an instance of \<^verbatim>\<open>Exception\<close> is caught and reported, not raised
  again; an exception that is neither leaves the script uncaught.
\<close>

theorem top_level_handlers:
  "(isinstance_BaseExceptionGroup e \<longrightarrow> dunder_main (Some e) = Suppressed)
   \<and> (\<not> isinstance_BaseExceptionGroup e \<and> isinstance_Exception e \<longrightarrow>
        dunder_main (Some e) = Reported e)
   \<and> (\<not> isinstance_BaseExceptionGroup e \<and> \<not> isinstance_Exception e \<longrightarrow>
        dunder_main (Some e) = Uncaught e)"
  by (simp add: dunder_main_def)

text \<open>C8, the amended claim at a group of each kind, at two errors and at an interrupt.\<close>

theorem top_level_handlers_witness:
  "dunder_main (Some (BaseExceptionGroup ''unhandled errors in a TaskGroup'')) = Suppressed
   \<and> dunder_main (Some (ExceptionGroup ''unhandled errors in a TaskGroup'')) = Suppressed
   \<and> dunder_main (Some Binascii_Incorrect_padding) = Reported Binascii_Incorrect_padding
   \<and> dunder_main (Some (OtherException ''model overloaded'')) = Reported (OtherException ''model overloaded'')
   \<and> dunder_main (Some KeyboardInterrupt) = Uncaught KeyboardInterrupt"
  using top_level_handlers [of "BaseExceptionGroup ''unhandled errors in a TaskGroup''"]
    top_level_handlers [of "ExceptionGroup ''unhandled errors in a TaskGroup''"]
    top_level_handlers [of Binascii_Incorrect_padding]
    top_level_handlers [of "OtherException ''model overloaded''"]
    top_level_handlers [of KeyboardInterrupt]
  by simp

text \<open>
  C9: when decoding the selected data raises, the file system after the call is the
  file system before it, whatever the output path and whether or not it could have been
  written: the decoder runs before \<^verbatim>\<open>write_bytes\<close> is reached.
\<close>

theorem decode_error_writes_nothing:
  assumes "scan_events events PNone = PStr d" and "b64decode d = Inl err"
  shows "snd (save_image_from_response events output_filename s) = s"
  using assms scan_events_result [OF assms(1)]
  by (simp add: save_image_from_response_def)

text \<open>C9 at five alphabet characters, one more than a multiple of four.\<close>

theorem decode_error_writes_nothing_witness:
  "scan_events [event_of_parts [tool_response_part [image_item ''QUJDQ'']]] PNone = PStr ''QUJDQ''
   \<and> b64decode ''QUJDQ'' = Inl (Binascii_Invalid_length 5)
   \<and> writable empty_fs default_output_filename
   \<and> snd (save_image_from_response [event_of_parts [tool_response_part [image_item ''QUJDQ'']]]
            default_output_filename empty_fs) = empty_fs"
proof -
  have sel: "scan_events [event_of_parts [tool_response_part [image_item ''QUJDQ'']]] PNone
      = PStr ''QUJDQ''"
    by (simp add: build_defs scan_defs)
  have dec: "b64decode ''QUJDQ'' = Inl (Binascii_Invalid_length 5)"
    by (simp add: b64_defs)
  from decode_error_writes_nothing [OF sel dec] sel dec show ?thesis
    by (simp add: empty_fs_def)
qed

text \<open>
  C10: a part whose tool response has no \<^verbatim>\<open>"content"\<close> key is passed over, as is an
  event without content, without parts or with an empty list of parts; the scan goes on
  with what follows. On a list of such events only, the call returns the not-found
  status, raises nothing and writes nothing.
\<close>

theorem malformed_inputs_skipped:
  "(function_response p = Some fr \<and> response fr ''content'' = None \<longrightarrow>
      scan_parts (p # ps) acc = scan_parts ps acc)
   \<and> (content e = None \<or> (\<exists>c. content e = Some c \<and> (parts c = None \<or> parts c = Some [])) \<longrightarrow>
        scan_events (e # es) acc = scan_events es acc)
   \<and> (list_all no_tool_content events \<longrightarrow>
        save_image_from_response events output_filename s = (Inr not_found_status, s))"
proof (intro conjI impI)
  assume "function_response p = Some fr \<and> response fr ''content'' = None"
  then show "scan_parts (p # ps) acc = scan_parts ps acc"
    by (simp add: response_content_def)
next
  assume "content e = None \<or> (\<exists>c. content e = Some c \<and> (parts c = None \<or> parts c = Some []))"
  then show "scan_events (e # es) acc = scan_events es acc"
    by auto
next
  assume "list_all no_tool_content events"
  then have "all_items events = []" by (rule no_tool_content_all_items)
  then have "scan_events events PNone = PNone" by (simp add: scan_events_none)
  then show "save_image_from_response events output_filename s = (Inr not_found_status, s)"
    by (simp add: save_image_from_response_def)
qed

text \<open>
  C10 at a part with an empty response dict, at an event without parts, and at four
  events that offer no items.
\<close>

theorem malformed_inputs_skipped_witness:
  "function_response bare_response_part = Some \<lparr>response = Map.empty\<rparr>
   \<and> scan_parts [bare_response_part, tool_response_part [image_item ''QUJD'']] PNone
       = scan_parts [tool_response_part [image_item ''QUJD'']] PNone
   \<and> scan_events [\<lparr>content = Some \<lparr>parts = None\<rparr>\<rparr>,
                  event_of_parts [tool_response_part [image_item ''QUJD'']]] PNone
       = scan_events [event_of_parts [tool_response_part [image_item ''QUJD'']]] PNone
   \<and> list_all no_tool_content no_items_events
   \<and> save_image_from_response no_items_events default_output_filename empty_fs
       = (Inr not_found_status, empty_fs)"
proof -
  have shape: "list_all no_tool_content no_items_events"
    by (simp add: no_items_events_def no_tool_content_def event_of_parts_def bare_response_part_def)
  have bare: "function_response bare_response_part = Some \<lparr>response = Map.empty\<rparr>"
    by (simp add: bare_response_part_def)
  from malformed_inputs_skipped [of bare_response_part "\<lparr>response = Map.empty\<rparr>"
      "[tool_response_part [image_item ''QUJD'']]" PNone
      "\<lparr>content = Some \<lparr>parts = None\<rparr>\<rparr>"
      "[event_of_parts [tool_response_part [image_item ''QUJD'']]]"
      no_items_events default_output_filename empty_fs] shape bare
  show ?thesis by simp
qed

end
